theory Spec2Isabelle
  imports Complex_Main
begin

section \<open>Text\<close>

text \<open>
  A JavaScript string is a sequence of UTF-16 code units; it is modelled as a list of
  code-unit numbers.  CSS selectors are constants of the script and stay Isabelle
  strings.  \<open>str\<close> turns an ASCII literal into the code units JavaScript would hold.
\<close>

type_synonym jsstring = "nat list"

definition str :: "string \<Rightarrow> jsstring" where
  "str s = map of_char s"

text \<open>The character class \<open>[0-9]\<close> of the regular expression on line 53.\<close>

definition isDigit :: "nat \<Rightarrow> bool" where
  "isDigit c = (48 \<le> c \<and> c \<le> 57)"

text \<open>
  The class \<open>\s\<close> of line 15, which is also what \<open>trim()\<close> strips: TAB, LF, VT, FF, CR,
  SPACE, NBSP, U+1680, U+2000..U+200A, U+2028, U+2029, U+202F, U+205F, U+3000, U+FEFF.
\<close>

definition isSpace :: "nat \<Rightarrow> bool" where
  "isSpace c = (c \<in> {9, 10, 11, 12, 13, 32, 160, 5760, 8232, 8233, 8239, 8287, 12288, 65279}
                \<or> (8192 \<le> c \<and> c \<le> 8202))"

definition trim :: "jsstring \<Rightarrow> jsstring" where
  "trim t = rev (dropWhile isSpace (rev (dropWhile isSpace t)))"

text \<open>\<open>replace(/\s+/g, ' ')\<close>: every maximal run of whitespace becomes one SPACE.\<close>

function collapseSpaces :: "jsstring \<Rightarrow> jsstring" where
  "collapseSpaces [] = []"
| "collapseSpaces (c # cs) =
     (if isSpace c then 32 # collapseSpaces (dropWhile isSpace cs)
      else c # collapseSpaces cs)"
  by pat_completeness auto
termination
  by (relation "measure length") (auto simp: length_dropWhile_le less_Suc_eq_le)

text \<open>
  Line 15: \<open>text ? text.trim().replace(/\s+/g, ' ') : ''\<close>.  The argument is always the
  \<open>textContent\<close> of an element, a string; the empty string is the only falsy one.
\<close>

definition cleanText :: "jsstring \<Rightarrow> jsstring" where
  "cleanText t = (if t \<noteq> [] then collapseSpaces (trim t) else [])"

section \<open>Rating text\<close>

text \<open>
  Line 53: \<open>textContent.match(/([0-9],[0-9]|[0-9])/)\<close>.  The match is the leftmost one;
  at a position the alternative \<open>[0-9],[0-9]\<close> is tried before \<open>[0-9]\<close>.  The result is
  capture group 1, or \<open>None\<close> for \<open>null\<close>.
\<close>

fun matchRating :: "jsstring \<Rightarrow> jsstring option" where
  "matchRating [] = None"
| "matchRating (c # cs) =
     (if isDigit c then
        (case cs of
           k # d # _ \<Rightarrow> if k = 44 \<and> isDigit d then Some [c, k, d] else Some [c]
         | _ \<Rightarrow> Some [c])
      else matchRating cs)"

text \<open>\<open>replace(a, b)\<close> with string arguments replaces the first occurrence only.\<close>

fun replaceFirst :: "nat \<Rightarrow> nat \<Rightarrow> jsstring \<Rightarrow> jsstring" where
  "replaceFirst a b [] = []"
| "replaceFirst a b (c # cs) = (if c = a then b # cs else c # replaceFirst a b cs)"

definition decimalValue :: "jsstring \<Rightarrow> nat" where
  "decimalValue ds = foldl (\<lambda>acc c. 10 * acc + (c - 48)) 0 ds"

text \<open>
  \<open>parseFloat\<close> on an unsigned decimal: the longest prefix of the shape
  \<open>digits\<close>, \<open>digits.digits\<close>, \<open>digits.\<close> or \<open>.digits\<close>; \<open>None\<close> is NaN.  The number is
  held as the rational that the decimal denotes; JavaScript holds the double nearest
  to it (4.5 and every whole number are doubles themselves).  Leading whitespace, signs,
  exponents and \<open>Infinity\<close> are outside this model: line 54 passes one digit, or two
  digits around a dot.
\<close>

definition parseFloat :: "jsstring \<Rightarrow> rat option" where
  "parseFloat t =
     (let ip = takeWhile isDigit t;
          rest = dropWhile isDigit t;
          fp = (case rest of c # r \<Rightarrow> if c = 46 then takeWhile isDigit r else [] | [] \<Rightarrow> [])
      in if ip = [] \<and> fp = [] then None
         else Some (of_nat (decimalValue ip) + of_nat (decimalValue fp) / 10 ^ length fp))"

text \<open>
  The \<open>note\<close> field holds the empty string (its initial value, and the value assigned
  when the pattern does not match) or a number.
\<close>

datatype note_value = EmptyNote | NumberNote rat | NaNNote

text \<open>Line 54: \<open>match ? parseFloat(match[1].replace(',', '.')) : ''\<close>.\<close>

definition noteOfText :: "jsstring \<Rightarrow> note_value" where
  "noteOfText t =
     (case matchRating t of
        None \<Rightarrow> EmptyNote
      | Some m \<Rightarrow> (case parseFloat (replaceFirst 44 46 m) of
                     Some q \<Rightarrow> NumberNote q
                   | None \<Rightarrow> NaNNote))"

section \<open>Review records and the page\<close>

record review =
  id_review :: nat
  page :: nat
  note_review :: note_value
  titre :: jsstring
  texte :: jsstring
  date :: jsstring
  auteur :: jsstring
  achat_verifie :: bool

text \<open>
  A review container \<open>r\<close> is seen only through \<open>r.querySelector(sel)\<close>: \<open>None\<close> for
  \<open>null\<close>, otherwise the \<open>textContent\<close> of the first element matching \<open>sel\<close>.
\<close>

type_synonym element = "string \<Rightarrow> jsstring option"

text \<open>
  The document is seen through \<open>querySelectorAll\<close> (the review containers a selector
  finds) and through \<open>querySelector\<close> on the pagination selectors: \<open>None\<close> for \<open>null\<close>,
  \<open>Some d\<close> for a link whose \<open>classList.contains('a-disabled')\<close> is \<open>d\<close>.
\<close>

record document =
  querySelectorAll :: "string \<Rightarrow> element list"
  querySelector :: "string \<Rightarrow> bool option"

text \<open>
  The rendering surface is outside the script.  \<open>env k t\<close> is the document shown once the
  script has clicked \<open>k\<close> times, \<open>t\<close> milliseconds of timers after the last click (or
  after the script was loaded).  Between two timers the script runs alone, so every query
  of one synchronous stretch reads the same document.
\<close>

type_synonym surface = "nat \<Rightarrow> nat \<Rightarrow> document"

text \<open>One constructor for each \<open>console\<close> call of the functions modelled.\<close>

datatype log_entry =
    LogDetected nat nat            \<comment> \<open>line 32: page, containers detected\<close>
  | LogNextPage nat                \<comment> \<open>line 123\<close>
  | LogLoaded nat nat              \<comment> \<open>line 141: page, containers seen by the poll\<close>
  | LogAlreadyRunning              \<comment> \<open>line 155\<close>
  | LogStart                       \<comment> \<open>line 160\<close>
  | LogMayTakeMinutes              \<comment> \<open>line 161\<close>
  | LogKeepPageOpen                \<comment> \<open>line 162\<close>
  | LogCannotNavigate              \<comment> \<open>line 174\<close>
  | LogRunningTotal nat            \<comment> \<open>line 185\<close>
  | LogPause nat                   \<comment> \<open>line 189: seconds\<close>
  | LogFinished                    \<comment> \<open>line 195\<close>
  | LogTotals nat nat              \<comment> \<open>line 196: records, pages\<close>
  | LogCopyJson                    \<comment> \<open>line 197\<close>
  | LogRule                        \<comment> \<open>lines 198 and 200\<close>
  | LogJson "review list"          \<comment> \<open>line 199: the collection that is serialised\<close>
  | LogStatistics                  \<comment> \<open>line 208\<close>
  | LogCount nat                   \<comment> \<open>line 209\<close>
  | LogDistribution "note_value \<Rightarrow> nat"   \<comment> \<open>line 210: \<open>noteStats\<close>, absent key as 0\<close>
  | LogVerified jsstring           \<comment> \<open>line 211: the text after the label\<close>
  | LogError                       \<comment> \<open>line 214\<close>

text \<open>
  The globals of lines 4 to 7, the console, and the script's position on the surface:
  how many clicks it has made and the timer milliseconds since the last one.
\<close>

record state =
  allReviews :: "review list"
  currentPage :: nat
  totalPages :: nat
  isProcessing :: bool
  clicks :: nat
  elapsed :: nat
  console :: "log_entry list"

definition initial :: state where
  "initial = \<lparr>allReviews = [], currentPage = 1, totalPages = 1, isProcessing = False,
              clicks = 0, elapsed = 0, console = []\<rparr>"

definition MAX_PAGES :: nat where
  "MAX_PAGES = 20"

definition DELAY_BETWEEN_PAGES :: nat where
  "DELAY_BETWEEN_PAGES = 3000"

definition shown :: "surface \<Rightarrow> state \<Rightarrow> document" where
  "shown env s = env (clicks s) (elapsed s)"

definition log :: "log_entry \<Rightarrow> state \<Rightarrow> state" where
  "log e s = s\<lparr>console := console s @ [e]\<rparr>"

text \<open>\<open>setTimeout(f, ms)\<close> followed by its callback: \<open>ms\<close> more milliseconds have passed.\<close>

definition setTimeout :: "nat \<Rightarrow> state \<Rightarrow> state" where
  "setTimeout ms s = s\<lparr>elapsed := elapsed s + ms\<rparr>"

section \<open>extractReviewsFromCurrentPage\<close>

definition reviewSelectors :: "string list" where
  \<open>reviewSelectors = [''[data-hook="review"]'', ''.review'', ''.a-section.review'']\<close>

definition ratingSelectors :: "string list" where
  \<open>ratingSelectors = [''[data-hook="review-star-rating"]'', ''.a-icon-alt'', ''.review-rating'']\<close>

definition titleSelectors :: "string list" where
  \<open>titleSelectors = [''[data-hook="review-title"]'', ''.review-title'', ''h5'']\<close>

definition textSelectors :: "string list" where
  \<open>textSelectors = [''[data-hook="review-body"]'', ''.review-text'', ''.review-body'']\<close>

definition authorSelectors :: "string list" where
  \<open>authorSelectors = [''.a-profile-name'', ''.author'']\<close>

text \<open>
  Lines 26 to 30: the containers of the first selector that finds any; when none does,
  the (empty) result of the last query.
\<close>

fun findReviewElements :: "document \<Rightarrow> string list \<Rightarrow> element list" where
  "findReviewElements doc [] = []"
| "findReviewElements doc (selector # rest) =
     (if length (querySelectorAll doc selector) > 0 then querySelectorAll doc selector
      else findReviewElements doc rest)"

text \<open>
  The loops of lines 50, 61, 71 and 85: the first selector that finds an element
  decides, and the loop breaks there.
\<close>

fun firstMatch :: "element \<Rightarrow> string list \<Rightarrow> jsstring option" where
  "firstMatch r [] = None"
| "firstMatch r (sel # rest) =
     (case r sel of Some t \<Rightarrow> Some t | None \<Rightarrow> firstMatch r rest)"

text \<open>Lines 37 to 94: the record assembled for container \<open>r\<close> at position \<open>index\<close>.\<close>

definition assemble :: "state \<Rightarrow> element \<Rightarrow> nat \<Rightarrow> review" where
  \<open>assemble s r index =
     \<lparr>id_review = length (allReviews s) + index + 1,
      page = currentPage s,
      note_review = (case firstMatch r ratingSelectors of
                       Some t \<Rightarrow> noteOfText t | None \<Rightarrow> EmptyNote),
      titre = (case firstMatch r titleSelectors of Some t \<Rightarrow> cleanText t | None \<Rightarrow> []),
      texte = (case firstMatch r textSelectors of Some t \<Rightarrow> cleanText t | None \<Rightarrow> []),
      date = (case r ''[data-hook="review-date"]'' of Some t \<Rightarrow> cleanText t | None \<Rightarrow> []),
      auteur = (case firstMatch r authorSelectors of Some t \<Rightarrow> cleanText t | None \<Rightarrow> []),
      achat_verifie = (r ''[data-hook="avp-badge"]'' \<noteq> None)\<rparr>\<close>

text \<open>
  Lines 96 to 98: the record is pushed only when its title or its text is a non-empty
  string.  The queries of the callback use constant, valid selectors on an element and
  do not throw, so its \<open>catch\<close> (line 99) has nothing to handle here.
\<close>

definition kept :: "review \<Rightarrow> bool" where
  "kept review = (titre review \<noteq> [] \<or> texte review \<noteq> [])"

fun forEachReview :: "state \<Rightarrow> element list \<Rightarrow> nat \<Rightarrow> review list" where
  "forEachReview s [] index = []"
| "forEachReview s (r # rs) index =
     (if kept (assemble s r index) then assemble s r index # forEachReview s rs (Suc index)
      else forEachReview s rs (Suc index))"

definition extractReviewsFromCurrentPage :: "document \<Rightarrow> state \<Rightarrow> review list \<times> state" where
  "extractReviewsFromCurrentPage doc s =
     (let reviewElements = findReviewElements doc reviewSelectors
      in (forEachReview s reviewElements 0,
          log (LogDetected (currentPage s) (length reviewElements)) s))"

section \<open>Pagination\<close>

definition paginationSelectors :: "string list" where
  \<open>paginationSelectors =
     [''li.a-last a'', ''.a-pagination .a-last a'', ''[data-hook="pagination-bar"] .a-last a'']\<close>

text \<open>Lines 109 to 111 and 118 to 120: the \<open>||\<close> chain yields the first link found.\<close>

fun nextButton :: "document \<Rightarrow> string list \<Rightarrow> bool option" where
  "nextButton doc [] = None"
| "nextButton doc (sel # rest) =
     (case querySelector doc sel of Some a \<Rightarrow> Some a | None \<Rightarrow> nextButton doc rest)"

text \<open>Line 113, read for its truth value.\<close>

definition hasNextPage :: "document \<Rightarrow> bool" where
  "hasNextPage doc =
     (case nextButton doc paginationSelectors of
        None \<Rightarrow> False
      | Some disabled \<Rightarrow> \<not> disabled)"

text \<open>\<open>nextButton.click()\<close>: the surface has one more click to answer, and no timer has run since.\<close>

definition click :: "state \<Rightarrow> state" where
  "click s = s\<lparr>clicks := clicks s + 1, elapsed := 0\<rparr>"

definition goToNextPage :: "surface \<Rightarrow> state \<Rightarrow> bool \<times> state" where
  "goToNextPage env s =
     (case nextButton (shown env s) paginationSelectors of
        None \<Rightarrow> (False, s)
      | Some disabled \<Rightarrow>
          if \<not> disabled then (True, click (log (LogNextPage (currentPage s + 1)) s))
          else (False, s))"

definition maxAttempts :: nat where
  "maxAttempts = 30"

text \<open>
  Lines 136 to 146, entered when a timer of 1000 ms fires: \<open>attempts\<close> is the closure's
  counter before the increment of line 137.
\<close>

function checkLoaded :: "surface \<Rightarrow> nat \<Rightarrow> state \<Rightarrow> state" where
  \<open>checkLoaded env attempts s =
     (if length (querySelectorAll (shown env s) ''[data-hook="review"]'') > 0
         \<or> attempts + 1 \<ge> maxAttempts
      then log (LogLoaded (currentPage s)
                  (length (querySelectorAll (shown env s) ''[data-hook="review"]''))) s
      else checkLoaded env (attempts + 1) (setTimeout 1000 s))\<close>
  by pat_completeness auto
termination
  by (relation "measure (\<lambda>(env, attempts, s). maxAttempts - attempts)") auto

text \<open>Lines 131 to 150; the value is the state in which the promise resolves.\<close>

definition waitForPageLoad :: "surface \<Rightarrow> state \<Rightarrow> state" where
  "waitForPageLoad env s = checkLoaded env 0 (setTimeout 1000 s)"

section \<open>processAllPages\<close>

text \<open>
  Lines 171 to 191, one turn of the \<open>while\<close> loop.  The flag is \<open>False\<close> when the turn
  ends in the \<open>break\<close> of line 175.
\<close>

definition loopBody :: "surface \<Rightarrow> state \<Rightarrow> bool \<times> state" where
  "loopBody env s =
     (let s1 = s\<lparr>currentPage := currentPage s + 1\<rparr>;
          (moved, s2) = goToNextPage env s1
      in if \<not> moved then (False, log LogCannotNavigate s2)
         else
           let s3 = waitForPageLoad env s2;
               (pageReviews, s4) = extractReviewsFromCurrentPage (shown env s3) s3;
               s5 = s4\<lparr>allReviews := allReviews s4 @ pageReviews\<rparr>;
               s6 = log (LogRunningTotal (length (allReviews s5))) s5
           in if hasNextPage (shown env s6) \<and> currentPage s6 < MAX_PAGES
              then (True, setTimeout DELAY_BETWEEN_PAGES
                            (log (LogPause (DELAY_BETWEEN_PAGES div 1000)) s6))
              else (True, s6))"

lemma currentPage_log [simp]: "currentPage (log e s) = currentPage s"
  by (simp add: log_def)

lemma currentPage_setTimeout [simp]: "currentPage (setTimeout ms s) = currentPage s"
  by (simp add: setTimeout_def)

lemma currentPage_click [simp]: "currentPage (click s) = currentPage s"
  by (simp add: click_def)

declare checkLoaded.simps [simp del]

lemma currentPage_checkLoaded [simp]: "currentPage (checkLoaded env attempts s) = currentPage s"
proof (induction env attempts s rule: checkLoaded.induct)
  case (1 env attempts s)
  then show ?case
    by (subst checkLoaded.simps) (simp split: if_splits)
qed

lemma currentPage_loopBody: "currentPage (snd (loopBody env s)) = currentPage s + 1"
  by (simp add: loopBody_def goToNextPage_def waitForPageLoad_def
      extractReviewsFromCurrentPage_def Let_def split: option.splits prod.splits)

text \<open>Lines 170 to 192.\<close>

function whileLoop :: "surface \<Rightarrow> state \<Rightarrow> state" where
  "whileLoop env s =
     (if hasNextPage (shown env s) \<and> currentPage s < MAX_PAGES
      then (if fst (loopBody env s) then whileLoop env (snd (loopBody env s))
            else snd (loopBody env s))
      else s)"
  by pat_completeness auto
termination
  by (relation "measure (\<lambda>(env, s). MAX_PAGES - currentPage s)")
     (auto simp: currentPage_loopBody)

declare whileLoop.simps [simp del]

text \<open>The template literal \<open>${n}\<close> for a count: its decimal digits.\<close>

function showNat :: "nat \<Rightarrow> jsstring" where
  "showNat n = (if n < 10 then [48 + n] else showNat (n div 10) @ [48 + n mod 10])"
  by pat_completeness auto
termination
  by (relation "measure id") auto

declare showNat.simps [simp del]

text \<open>Lines 203 to 206: \<open>noteStats\<close>, a count for each value of \<open>note\<close>.\<close>

definition noteStats :: "review list \<Rightarrow> note_value \<Rightarrow> nat" where
  "noteStats rs =
     foldl (\<lambda>stats review. stats(note_review review := stats (note_review review) + 1))
       (\<lambda>_. 0) rs"

text \<open>
  Line 211: \<open>${allReviews.filter(r => r.achat_verifie).length}/${allReviews.length}\<close>,
  two counts around a slash.
\<close>

definition verifiedText :: "review list \<Rightarrow> jsstring" where
  "verifiedText rs = showNat (length (filter achat_verifie rs)) @ str ''/'' @ showNat (length rs)"

text \<open>Lines 194 to 211.\<close>

definition report :: "state \<Rightarrow> state" where
  "report s =
     s\<lparr>console := console s @
        [LogFinished,
         LogTotals (length (allReviews s)) (currentPage s),
         LogCopyJson,
         LogRule,
         LogJson (allReviews s),
         LogRule,
         LogStatistics,
         LogCount (length (allReviews s)),
         LogDistribution (noteStats (allReviews s)),
         LogVerified (verifiedText (allReviews s))]\<rparr>"

text \<open>
  How a block ends.  The body of the \<open>try\<close> (lines 165 to 211) queries the document with
  constant selectors and calls the functions above; none of them throws, so it always
  ends normally.
\<close>

datatype completion = Normal | Threw

definition tryBody :: "surface \<Rightarrow> state \<Rightarrow> completion \<times> state" where
  "tryBody env s =
     (let (firstPageReviews, s1) = extractReviewsFromCurrentPage (shown env s) s;
          s2 = s1\<lparr>allReviews := allReviews s1 @ firstPageReviews\<rparr>;
          s3 = whileLoop env s2
      in (Normal, report s3))"

text \<open>
  Lines 153 to 218 around a body: the guard, the flag, the \<open>catch\<close> and the \<open>finally\<close>.
  The body is a parameter so that the handlers can be studied for a body that throws.
\<close>

definition processAllPages_with ::
  "(surface \<Rightarrow> state \<Rightarrow> completion \<times> state) \<Rightarrow> surface \<Rightarrow> state \<Rightarrow> state" where
  "processAllPages_with body env s =
     (if isProcessing s then log LogAlreadyRunning s
      else
        let s1 = s\<lparr>isProcessing := True\<rparr>;
            s2 = log LogKeepPageOpen (log LogMayTakeMinutes (log LogStart s1));
            (c, s3) = body env s2;
            s4 = (case c of Normal \<Rightarrow> s3 | Threw \<Rightarrow> log LogError s3)
        in s4\<lparr>isProcessing := False\<rparr>)"

definition processAllPages :: "surface \<Rightarrow> state \<Rightarrow> state" where
  "processAllPages = processAllPages_with tryBody"

section \<open>Notions used in the statements\<close>

text \<open>
  Whether container \<open>r\<close> passes the test of line 96.  The test reads the title and the
  text only, so the state and the position do not matter (lemma \<open>kept_assemble\<close>).
\<close>

definition yieldsRecord :: "element \<Rightarrow> bool" where
  "yieldsRecord r = kept (assemble initial r 0)"

text \<open>The state in which line 182 runs, for a turn of the loop that starts in \<open>s\<close>.\<close>

definition arrived :: "surface \<Rightarrow> state \<Rightarrow> state" where
  "arrived env s =
     waitForPageLoad env (snd (goToNextPage env (s\<lparr>currentPage := currentPage s + 1\<rparr>)))"

text \<open>The state after line 167, for a call that passes the guard in \<open>s\<close>.\<close>

definition firstPageDone :: "surface \<Rightarrow> state \<Rightarrow> state" where
  "firstPageDone env s =
     (let s0 = log LogKeepPageOpen (log LogMayTakeMinutes (log LogStart (s\<lparr>isProcessing := True\<rparr>)));
          (firstPageReviews, s1) = extractReviewsFromCurrentPage (shown env s0) s0
      in s1\<lparr>allReviews := allReviews s1 @ firstPageReviews\<rparr>)"

text \<open>The pages a console shows as read: its lines of line 32, one for each extraction.\<close>

fun isDetected :: "log_entry \<Rightarrow> bool" where
  "isDetected (LogDetected p n) = True"
| "isDetected _ = False"

definition pagesRead :: "log_entry list \<Rightarrow> nat" where
  "pagesRead c = length (filter isDetected c)"

text \<open>
  The page counter, the clicks made and the pages read are in step, below the ceiling,
  and no error has been logged.
\<close>

definition inStep :: "state \<Rightarrow> bool" where
  "inStep u = (currentPage u \<le> MAX_PAGES \<and> clicks u + 1 = currentPage u \<and>
               pagesRead (console u) = currentPage u \<and> LogError \<notin> set (console u))"

section \<open>Example pages\<close>

text \<open>
  Containers: one rated in the French format, one in the English format, one with a rating
  text without digits, and one in which no selector finds anything.
\<close>

definition frenchRated :: element where
  \<open>frenchRated = (\<lambda>sel.
     if sel = ''[data-hook="review-title"]'' then Some (str ''  Tres   bien '')
     else if sel = ''.a-icon-alt'' then Some (str ''4,5 sur 5 etoiles'')
     else None)\<close>

definition dotRated :: element where
  \<open>dotRated = (\<lambda>sel.
     if sel = ''[data-hook="review-title"]'' then Some (str ''Great'')
     else if sel = ''.a-icon-alt'' then Some (str ''4.5 out of 5 stars'')
     else None)\<close>

definition wordRated :: element where
  \<open>wordRated = (\<lambda>sel.
     if sel = ''[data-hook="review-body"]'' then Some (str ''Parfait'')
     else if sel = ''.a-icon-alt'' then Some (str ''cinq etoiles'')
     else None)\<close>

definition blank :: element where
  "blank = (\<lambda>sel. None)"

text \<open>
  Documents: a page whose first container has neither title nor text, with a next page; a
  page with one review and a disabled next link; a page without anything.
\<close>

definition firstPage :: document where
  \<open>firstPage =
     \<lparr>querySelectorAll = (\<lambda>sel. if sel = ''[data-hook="review"]'' then [blank, frenchRated] else []),
      querySelector = (\<lambda>sel. if sel = ''li.a-last a'' then Some False else None)\<rparr>\<close>

definition lastPage :: document where
  \<open>lastPage =
     \<lparr>querySelectorAll = (\<lambda>sel. if sel = ''[data-hook="review"]'' then [wordRated] else []),
      querySelector = (\<lambda>sel. if sel = ''li.a-last a'' then Some True else None)\<rparr>\<close>

definition emptyPage :: document where
  "emptyPage = \<lparr>querySelectorAll = (\<lambda>sel. []), querySelector = (\<lambda>sel. None)\<rparr>"

text \<open>A page with the given containers, and a next link that is enabled or disabled.\<close>

definition pageOf :: "element list \<Rightarrow> bool \<Rightarrow> document" where
  \<open>pageOf rs further =
     \<lparr>querySelectorAll = (\<lambda>sel. if sel = ''[data-hook="review"]'' then rs else []),
      querySelector = (\<lambda>sel. if sel = ''li.a-last a'' then Some (\<not> further) else None)\<rparr>\<close>

text \<open>Surfaces that do not depend on the time: the click alone changes the page.\<close>

definition twoPages :: surface where
  "twoPages k t = (if k = 0 then firstPage else lastPage)"

definition noPages :: surface where
  "noPages k t = emptyPage"

text \<open>Four pages with 3, 5, 0 and 2 containers that have a title or a text.\<close>

definition fourPages :: surface where
  "fourPages k t =
     (if k = 0 then pageOf [frenchRated, wordRated, frenchRated] True
      else if k = 1 then pageOf [wordRated, frenchRated, blank, wordRated, wordRated, frenchRated] True
      else if k = 2 then pageOf [] True
      else pageOf [frenchRated, wordRated] False)"

text \<open>Two pages on which every container has a title or a text.\<close>

definition keptPages :: surface where
  "keptPages k t =
     (if k = 0 then pageOf [frenchRated, wordRated] True else pageOf [wordRated, frenchRated] False)"

text \<open>A state in the middle of a run.\<close>

definition midRun :: state where
  "midRun = \<lparr>allReviews = [assemble initial frenchRated 0], currentPage = 2, totalPages = 1,
             isProcessing = True, clicks = 1, elapsed = 1000, console = []\<rparr>"

section \<open>Properties of the extraction\<close>

lemma kept_assemble: "kept (assemble s r index) = yieldsRecord r"
  by (simp add: kept_def assemble_def yieldsRecord_def)

lemma page_assemble: "page (assemble s r index) = currentPage s"
  by (simp add: assemble_def)

lemma id_assemble: "id_review (assemble s r index) = length (allReviews s) + index + 1"
  by (simp add: assemble_def)

lemma forEachReview_enumerate:
  "forEachReview s rs i =
     map (\<lambda>(j, r). assemble s r j) (filter (\<lambda>(j, r). yieldsRecord r) (enumerate i rs))"
  by (induction rs arbitrary: i) (simp_all add: kept_assemble)

lemma forEachReview_kept: "x \<in> set (forEachReview s rs i) \<Longrightarrow> kept x"
  by (induction rs arbitrary: i) (auto split: if_splits)

lemma length_forEachReview: "length (forEachReview s rs i) = length (filter yieldsRecord rs)"
  by (induction rs arbitrary: i) (simp_all add: kept_assemble)

lemma page_forEachReview:
  "map page (forEachReview s rs i) = replicate (length (filter yieldsRecord rs)) (currentPage s)"
  by (induction rs arbitrary: i) (simp_all add: kept_assemble page_assemble)

lemma ids_forEachReview_bounds:
  "x \<in> set (forEachReview s rs i) \<Longrightarrow>
     length (allReviews s) + i < id_review x \<and> id_review x \<le> length (allReviews s) + i + length rs"
  by (induction rs arbitrary: i) (fastforce simp: id_assemble split: if_splits)+

lemma ids_forEachReview_increasing:
  "sorted_wrt (<) (map id_review (forEachReview s rs i))"
proof (induction rs arbitrary: i)
  case Nil
  show ?case by simp
next
  case (Cons r rs)
  have "\<forall>x \<in> set (forEachReview s rs (Suc i)). length (allReviews s) + i + 1 < id_review x"
    using ids_forEachReview_bounds [of _ s rs "Suc i"] by auto
  with Cons show ?case
    by (simp add: id_assemble)
qed

lemma upt_shift: "[m ..< m + Suc n] = m # [Suc m ..< Suc m + n]"
  by (simp add: upt_conv_Cons)

lemma ids_forEachReview_all_kept:
  "\<forall>r \<in> set rs. yieldsRecord r \<Longrightarrow>
     map id_review (forEachReview s rs i) =
       [Suc (length (allReviews s) + i) ..< Suc (length (allReviews s) + i) + length rs]"
proof (induction rs arbitrary: i)
  case Nil
  show ?case by simp
next
  case (Cons r rs)
  then have "map id_review (forEachReview s rs (Suc i)) =
       [Suc (length (allReviews s) + Suc i) ..< Suc (length (allReviews s) + Suc i) + length rs]"
    by simp
  moreover have "[Suc (length (allReviews s) + i) ..< Suc (length (allReviews s) + i) + Suc (length rs)]
      = Suc (length (allReviews s) + i) # [Suc (Suc (length (allReviews s) + i)) ..< Suc (Suc (length (allReviews s) + i)) + length rs]"
    by (rule upt_shift)
  ultimately show ?case
    using Cons.prems by (simp add: kept_assemble id_assemble del: upt_Suc)
qed

section \<open>One turn of the loop\<close>

lemma fst_extract:
  "fst (extractReviewsFromCurrentPage doc s) = forEachReview s (findReviewElements doc reviewSelectors) 0"
  by (simp add: extractReviewsFromCurrentPage_def Let_def)

lemma checkLoaded_frame:
  "\<exists>e c. checkLoaded env attempts s = s\<lparr>elapsed := e, console := c\<rparr>"
proof (induction env attempts s rule: checkLoaded.induct)
  case (1 env attempts s)
  show ?case
  proof (cases "length (querySelectorAll (shown env s) ''[data-hook=\"review\"]'') > 0
         \<or> attempts + 1 \<ge> maxAttempts")
    case True
    then have "checkLoaded env attempts s = s\<lparr>elapsed := elapsed s, console := console (checkLoaded env attempts s)\<rparr>"
      by (subst checkLoaded.simps, subst (2) checkLoaded.simps) (simp add: log_def)
    then show ?thesis by blast
  next
    case False
    then obtain e c where "checkLoaded env (attempts + 1) (setTimeout 1000 s) = (setTimeout 1000 s)\<lparr>elapsed := e, console := c\<rparr>"
      using 1 by blast
    with False have "checkLoaded env attempts s = s\<lparr>elapsed := e, console := c\<rparr>"
      by (subst checkLoaded.simps) (simp add: setTimeout_def)
    then show ?thesis by blast
  qed
qed

lemma waitForPageLoad_frame:
  "\<exists>e c. waitForPageLoad env s = s\<lparr>elapsed := e, console := c\<rparr>"
proof -
  obtain e c where "checkLoaded env 0 (setTimeout 1000 s) = (setTimeout 1000 s)\<lparr>elapsed := e, console := c\<rparr>"
    using checkLoaded_frame by blast
  then have "waitForPageLoad env s = s\<lparr>elapsed := e, console := c\<rparr>"
    by (simp add: waitForPageLoad_def setTimeout_def)
  then show ?thesis by blast
qed

lemma goToNextPage_next:
  "hasNextPage (env (clicks s) (elapsed s)) \<Longrightarrow>
     goToNextPage env s = (True, click (log (LogNextPage (currentPage s + 1)) s))"
  by (auto simp add: goToNextPage_def hasNextPage_def shown_def split: option.splits)

lemma arrived_fields:
  assumes "hasNextPage (shown env s)"
  shows "allReviews (arrived env s) = allReviews s"
    and "currentPage (arrived env s) = currentPage s + 1"
    and "clicks (arrived env s) = clicks s + 1"
    and "isProcessing (arrived env s) = isProcessing s"
    and "totalPages (arrived env s) = totalPages s"
proof -
  define g where "g = snd (goToNextPage env (s\<lparr>currentPage := currentPage s + 1\<rparr>))"
  have g: "g = click (log (LogNextPage (currentPage s + 2)) (s\<lparr>currentPage := currentPage s + 1\<rparr>))"
    unfolding g_def using assms by (simp add: goToNextPage_next shown_def)
  obtain e c where w: "arrived env s = g\<lparr>elapsed := e, console := c\<rparr>"
    unfolding arrived_def g_def using waitForPageLoad_frame by blast
  show "allReviews (arrived env s) = allReviews s"
    and "currentPage (arrived env s) = currentPage s + 1"
    and "clicks (arrived env s) = clicks s + 1"
    and "isProcessing (arrived env s) = isProcessing s"
    and "totalPages (arrived env s) = totalPages s"
    by (simp_all add: w g click_def log_def)
qed

lemma loopBody_next:
  assumes "hasNextPage (shown env s)"
  shows "fst (loopBody env s)"
    and "allReviews (snd (loopBody env s)) =
           allReviews s @ fst (extractReviewsFromCurrentPage (shown env (arrived env s)) (arrived env s))"
    and "clicks (snd (loopBody env s)) = clicks s + 1"
    and "isProcessing (snd (loopBody env s)) = isProcessing s"
    and "totalPages (snd (loopBody env s)) = totalPages s"
proof -
  note a = arrived_fields [OF assms]
  have body: "loopBody env s =
      (let s3 = arrived env s;
           (pageReviews, s4) = extractReviewsFromCurrentPage (shown env s3) s3;
           s5 = s4\<lparr>allReviews := allReviews s4 @ pageReviews\<rparr>;
           s6 = log (LogRunningTotal (length (allReviews s5))) s5
       in if hasNextPage (shown env s6) \<and> currentPage s6 < MAX_PAGES
          then (True, setTimeout DELAY_BETWEEN_PAGES
                        (log (LogPause (DELAY_BETWEEN_PAGES div 1000)) s6))
          else (True, s6))"
    using assms
    by (simp add: loopBody_def arrived_def Let_def goToNextPage_next shown_def split: prod.splits)
  show "fst (loopBody env s)"
    by (simp add: body Let_def split: prod.splits)
  show "allReviews (snd (loopBody env s)) =
           allReviews s @ fst (extractReviewsFromCurrentPage (shown env (arrived env s)) (arrived env s))"
    by (simp add: body Let_def extractReviewsFromCurrentPage_def log_def setTimeout_def a)
  show "clicks (snd (loopBody env s)) = clicks s + 1"
    by (simp add: body Let_def extractReviewsFromCurrentPage_def log_def setTimeout_def a)
  show "isProcessing (snd (loopBody env s)) = isProcessing s"
    by (simp add: body Let_def extractReviewsFromCurrentPage_def log_def setTimeout_def a)
  show "totalPages (snd (loopBody env s)) = totalPages s"
    by (simp add: body Let_def extractReviewsFromCurrentPage_def log_def setTimeout_def a)
qed

section \<open>The loop\<close>

lemma whileLoop_stop:
  "\<not> (hasNextPage (shown env s) \<and> currentPage s < MAX_PAGES) \<Longrightarrow> whileLoop env s = s"
  by (subst whileLoop.simps) auto

lemma whileLoop_turn:
  "hasNextPage (shown env s) \<Longrightarrow> currentPage s < MAX_PAGES \<Longrightarrow>
     whileLoop env s = whileLoop env (snd (loopBody env s))"
  by (subst whileLoop.simps) (simp add: loopBody_next(1))

text \<open>A property of the state that every turn keeps holds when the loop ends.\<close>

lemma whileLoop_invariant_aux:
  "P s \<Longrightarrow>
   (\<forall>u. P u \<longrightarrow> hasNextPage (shown env u) \<longrightarrow> currentPage u < MAX_PAGES \<longrightarrow>
        P (snd (loopBody env u))) \<Longrightarrow>
   P (whileLoop env s)"
proof (induction env s rule: whileLoop.induct)
  case (1 env s)
  show ?case
  proof (cases "hasNextPage (shown env s) \<and> currentPage s < MAX_PAGES")
    case True
    then have "P (snd (loopBody env s))"
      using "1.prems" by blast
    then have "P (whileLoop env (snd (loopBody env s)))"
      using "1.IH" "1.prems"(2) True loopBody_next(1) by blast
    then show ?thesis
      using True by (simp add: whileLoop_turn)
  next
    case False
    then show ?thesis
      using "1.prems"(1) by (simp add: whileLoop_stop)
  qed
qed

lemma whileLoop_invariant:
  assumes "P s"
    and "\<And>u. P u \<Longrightarrow> hasNextPage (shown env u) \<Longrightarrow> currentPage u < MAX_PAGES \<Longrightarrow>
            P (snd (loopBody env u))"
  shows "P (whileLoop env s)"
proof (rule whileLoop_invariant_aux [of P s env])
  show "P s" by (rule assms(1))
  show "\<forall>u. P u \<longrightarrow> hasNextPage (shown env u) \<longrightarrow> currentPage u < MAX_PAGES \<longrightarrow>
        P (snd (loopBody env u))"
    using assms(2) by blast
qed

lemma whileLoop_prefix: "\<exists>new. allReviews (whileLoop env s) = allReviews s @ new"
proof (rule whileLoop_invariant [of "\<lambda>u. \<exists>new. allReviews u = allReviews s @ new" s env])
  show "\<exists>new. allReviews s = allReviews s @ new" by simp
next
  fix u
  assume "\<exists>new. allReviews u = allReviews s @ new" and "hasNextPage (shown env u)"
  then show "\<exists>new. allReviews (snd (loopBody env u)) = allReviews s @ new"
    by (auto simp: loopBody_next(2))
qed

lemma whileLoop_currentPage_mono: "currentPage s \<le> currentPage (whileLoop env s)"
  by (rule whileLoop_invariant [of "\<lambda>u. currentPage s \<le> currentPage u" s env])
     (simp_all add: currentPage_loopBody)

lemma whileLoop_kept:
  assumes "\<forall>x \<in> set (allReviews s). kept x"
  shows "\<forall>x \<in> set (allReviews (whileLoop env s)). kept x"
proof (rule whileLoop_invariant [of "\<lambda>u. \<forall>x \<in> set (allReviews u). kept x" s env])
  show "\<forall>x \<in> set (allReviews s). kept x" by (rule assms)
next
  fix u
  assume "\<forall>x \<in> set (allReviews u). kept x" and "hasNextPage (shown env u)"
  then show "\<forall>x \<in> set (allReviews (snd (loopBody env u))). kept x"
    by (auto simp: loopBody_next(2) fst_extract dest: forEachReview_kept)
qed

section \<open>Rating\<close>

lemma matchRating_skip:
  "\<forall>c \<in> set pre. \<not> isDigit c \<Longrightarrow> matchRating (pre @ t) = matchRating t"
  by (induction pre) simp_all

lemma matchRating_none: "\<forall>c \<in> set t. \<not> isDigit c \<Longrightarrow> matchRating t = None"
  by (induction t) simp_all

lemma noteOfText_comma:
  "\<forall>c \<in> set pre. \<not> isDigit c \<Longrightarrow> noteOfText (pre @ str ''4,5'' @ post) = NumberNote (9 / 2)"
  by (simp add: noteOfText_def matchRating_skip)
     (simp add: str_def isDigit_def parseFloat_def decimalValue_def)

lemma noteOfText_dot:
  "\<forall>c \<in> set pre. \<not> isDigit c \<Longrightarrow> noteOfText (pre @ str ''4.5'' @ post) = NumberNote 4"
  by (simp add: noteOfText_def matchRating_skip)
     (simp add: str_def isDigit_def parseFloat_def decimalValue_def)

lemma noteOfText_none: "\<forall>c \<in> set t. \<not> isDigit c \<Longrightarrow> noteOfText t = EmptyNote"
  by (simp add: noteOfText_def matchRating_none)

lemma note_assemble:
  "note_review (assemble s r index) =
     (case firstMatch r ratingSelectors of Some t \<Rightarrow> noteOfText t | None \<Rightarrow> EmptyNote)"
  by (simp add: assemble_def)

text \<open>
  C1, as the code has it.  The rating is read from the text of the first rating element.
  When the first digit of that text starts \<open>4,5\<close> the rating is 4.5.  When it starts
  \<open>4.5\<close> the rating is 4: the pattern knows the comma only, and the lone digit matches.
  When the text has no digit, or no rating element is found, the rating is the empty
  string and nothing is thrown.
\<close>

theorem C1_rating_from_text:
  "(firstMatch r ratingSelectors = Some t \<longrightarrow>
      ((\<forall>c \<in> set pre. \<not> isDigit c) \<and> t = pre @ str ''4,5'' @ post \<longrightarrow>
          note_review (assemble s r index) = NumberNote (9 / 2)) \<and>
      ((\<forall>c \<in> set pre. \<not> isDigit c) \<and> t = pre @ str ''4.5'' @ post \<longrightarrow>
          note_review (assemble s r index) = NumberNote 4) \<and>
      ((\<forall>c \<in> set t. \<not> isDigit c) \<longrightarrow> note_review (assemble s r index) = EmptyNote)) \<and>
   (firstMatch r ratingSelectors = None \<longrightarrow> note_review (assemble s r index) = EmptyNote)"
  by (simp add: note_assemble noteOfText_comma noteOfText_dot noteOfText_none)

lemma firstMatch_frenchRated:
  "firstMatch frenchRated ratingSelectors = Some (str ''4,5 sur 5 etoiles'')"
  by (simp add: frenchRated_def ratingSelectors_def)

lemma firstMatch_wordRated:
  "firstMatch wordRated ratingSelectors = Some (str ''cinq etoiles'')"
  by (simp add: wordRated_def ratingSelectors_def)

theorem C1_rating_from_text_witness:
  "note_review (assemble initial frenchRated 0) = NumberNote (9 / 2) \<and>
   note_review (assemble initial wordRated 0) = EmptyNote \<and>
   note_review (assemble initial blank 0) = EmptyNote"
proof -
  have "note_review (assemble initial frenchRated 0) = NumberNote (9 / 2)"
    using C1_rating_from_text [of frenchRated "str ''4,5 sur 5 etoiles''" "[]"
        "str '' sur 5 etoiles''" initial 0]
    by (simp add: firstMatch_frenchRated str_def)
  moreover have "note_review (assemble initial wordRated 0) = EmptyNote"
    using C1_rating_from_text [of wordRated "str ''cinq etoiles''" "[]" "[]" initial 0]
    by (simp add: firstMatch_wordRated str_def isDigit_def)
  moreover have "note_review (assemble initial blank 0) = EmptyNote"
    using C1_rating_from_text [of blank "[]" "[]" "[]" initial 0]
    by (simp add: blank_def ratingSelectors_def)
  ultimately show ?thesis by simp
qed

text \<open>
  C1 as stated fails for the dot: the record built from a container whose rating text is
  \<open>4.5 out of 5 stars\<close> carries the rating 4, not 4.5.
\<close>

theorem C1_dot_counterexample:
  "note_review (assemble initial dotRated 0) = NumberNote 4 \<and>
   note_review (assemble initial dotRated 0) \<noteq> NumberNote (9 / 2)"
  by (simp add: note_assemble dotRated_def ratingSelectors_def noteOfText_def str_def
      isDigit_def parseFloat_def decimalValue_def)

section \<open>The run as a whole\<close>

lemma forEachReview_cong:
  "length (allReviews s) = length (allReviews s') \<Longrightarrow> currentPage s = currentPage s' \<Longrightarrow>
     forEachReview s rs i = forEachReview s' rs i"
  by (induction rs arbitrary: i) (simp_all add: kept_assemble, simp_all add: assemble_def)

lemma processAllPages_run:
  "\<not> isProcessing s \<Longrightarrow>
     processAllPages env s = (report (whileLoop env (firstPageDone env s)))\<lparr>isProcessing := False\<rparr>"
  by (simp add: processAllPages_def processAllPages_with_def tryBody_def firstPageDone_def
      Let_def split: prod.splits)

lemma firstPageDone_fields:
  "allReviews (firstPageDone env s) =
     allReviews s @ forEachReview s (findReviewElements (shown env s) reviewSelectors) 0"
  "currentPage (firstPageDone env s) = currentPage s"
  "clicks (firstPageDone env s) = clicks s"
  "elapsed (firstPageDone env s) = elapsed s"
  "isProcessing (firstPageDone env s)"
proof -
  let ?s0 = "log LogKeepPageOpen (log LogMayTakeMinutes (log LogStart (s\<lparr>isProcessing := True\<rparr>)))"
  have "forEachReview ?s0 (findReviewElements (shown env s) reviewSelectors) 0 =
        forEachReview s (findReviewElements (shown env s) reviewSelectors) 0"
    by (rule forEachReview_cong) (simp_all add: log_def)
  then show "allReviews (firstPageDone env s) =
     allReviews s @ forEachReview s (findReviewElements (shown env s) reviewSelectors) 0"
    by (simp add: firstPageDone_def extractReviewsFromCurrentPage_def Let_def log_def shown_def)
  show "currentPage (firstPageDone env s) = currentPage s"
    "clicks (firstPageDone env s) = clicks s"
    "elapsed (firstPageDone env s) = elapsed s"
    "isProcessing (firstPageDone env s)"
    by (simp_all add: firstPageDone_def extractReviewsFromCurrentPage_def Let_def log_def)
qed

lemma report_fields:
  "allReviews (report s) = allReviews s"
  "currentPage (report s) = currentPage s"
  "clicks (report s) = clicks s"
  "isProcessing (report s) = isProcessing s"
  by (simp_all add: report_def)

lemma run_fields:
  assumes "\<not> isProcessing s"
  shows "allReviews (processAllPages env s) = allReviews (whileLoop env (firstPageDone env s))"
    and "currentPage (processAllPages env s) = currentPage (whileLoop env (firstPageDone env s))"
    and "clicks (processAllPages env s) = clicks (whileLoop env (firstPageDone env s))"
    and "\<not> isProcessing (processAllPages env s)"
  using assms by (simp_all add: processAllPages_run report_fields)

lemma turn_fields:
  assumes "hasNextPage (shown env s)"
  shows "allReviews (snd (loopBody env s)) =
           allReviews s @ forEachReview (arrived env s)
              (findReviewElements (shown env (arrived env s)) reviewSelectors) 0"
    and "length (allReviews (arrived env s)) = length (allReviews s)"
    and "currentPage (arrived env s) = currentPage s + 1"
    and "clicks (arrived env s) = clicks s + 1"
    and "clicks (snd (loopBody env s)) = clicks s + 1"
    and "currentPage (snd (loopBody env s)) = currentPage s + 1"
  using assms
  by (simp_all add: loopBody_next(2,3) fst_extract arrived_fields currentPage_loopBody)

lemma run_kept:
  assumes "\<forall>x \<in> set (allReviews s). kept x"
  shows "\<forall>x \<in> set (allReviews (processAllPages env s)). kept x"
proof (cases "isProcessing s")
  case True
  then show ?thesis
    using assms by (simp add: processAllPages_def processAllPages_with_def log_def)
next
  case False
  have "\<forall>x \<in> set (allReviews (firstPageDone env s)). kept x"
    using assms by (auto simp: firstPageDone_fields dest: forEachReview_kept)
  then have "\<forall>x \<in> set (allReviews (whileLoop env (firstPageDone env s))). kept x"
    by (rule whileLoop_kept)
  then show ?thesis
    using False by (simp add: run_fields)
qed

lemma titre_frenchRated: "titre (assemble s frenchRated index) = str ''Tres bien''"
  by (simp add: assemble_def frenchRated_def titleSelectors_def cleanText_def trim_def
      isSpace_def str_def)

lemma blank_fields: "titre (assemble s blank index) = []" "texte (assemble s blank index) = []"
  by (simp_all add: assemble_def blank_def titleSelectors_def textSelectors_def)

lemma texte_wordRated: "texte (assemble s wordRated index) = str ''Parfait''"
  by (simp add: assemble_def wordRated_def textSelectors_def cleanText_def trim_def
      isSpace_def str_def)

lemma yields_examples: "\<not> yieldsRecord blank" "yieldsRecord frenchRated" "yieldsRecord wordRated"
  by (simp_all add: yieldsRecord_def kept_def blank_fields titre_frenchRated texte_wordRated str_def)

lemma elements_firstPage: "findReviewElements firstPage reviewSelectors = [blank, frenchRated]"
  by (simp add: firstPage_def reviewSelectors_def)

lemma elements_lastPage: "findReviewElements lastPage reviewSelectors = [wordRated]"
  by (simp add: lastPage_def reviewSelectors_def)

lemma next_examples: "hasNextPage firstPage" "\<not> hasNextPage lastPage" "\<not> hasNextPage emptyPage"
  by (simp_all add: hasNextPage_def firstPage_def lastPage_def emptyPage_def paginationSelectors_def)

lemma shown_twoPages: "shown twoPages s = (if clicks s = 0 then firstPage else lastPage)"
  by (simp add: shown_def twoPages_def)

text \<open>
  The run over \<open>twoPages\<close> from a state that has made no click: the first page gives the
  record of its second container, one turn of the loop adds the record of the last page.
\<close>

lemma twoPages_run:
  assumes "\<not> isProcessing s" and "clicks s = 0" and "currentPage s < MAX_PAGES"
  shows "allReviews (processAllPages twoPages s) =
           allReviews s @ [assemble s frenchRated 1,
             assemble (s\<lparr>allReviews := allReviews s @ [assemble s frenchRated 1],
                         currentPage := currentPage s + 1\<rparr>) wordRated 0]"
    and "currentPage (processAllPages twoPages s) = currentPage s + 1"
    and "clicks (processAllPages twoPages s) = 1"
proof -
  define s1 where "s1 = firstPageDone twoPages s"
  define s2 where "s2 = snd (loopBody twoPages s1)"
  have s1: "allReviews s1 = allReviews s @ [assemble s frenchRated 1]"
    "currentPage s1 = currentPage s" "clicks s1 = 0"
    using assms(2)
    by (simp_all add: s1_def firstPageDone_fields shown_twoPages elements_firstPage
        kept_assemble yields_examples)
  have next1: "hasNextPage (shown twoPages s1)"
    by (simp add: shown_twoPages s1 next_examples)
  note t = turn_fields [OF next1]
  have shown_arrived: "shown twoPages (arrived twoPages s1) = lastPage"
    by (simp add: shown_twoPages t)
  have "forEachReview (arrived twoPages s1) [wordRated] 0 =
        forEachReview (s\<lparr>allReviews := allReviews s @ [assemble s frenchRated 1],
                         currentPage := currentPage s + 1\<rparr>) [wordRated] 0"
    by (rule forEachReview_cong) (simp_all add: t s1)
  then have s2: "allReviews s2 = allReviews s @ [assemble s frenchRated 1,
             assemble (s\<lparr>allReviews := allReviews s @ [assemble s frenchRated 1],
                         currentPage := currentPage s + 1\<rparr>) wordRated 0]"
    "currentPage s2 = currentPage s + 1" "clicks s2 = 1"
    by (simp_all add: s2_def t shown_arrived elements_lastPage s1 kept_assemble yields_examples)
  have "\<not> hasNextPage (shown twoPages s2)"
    by (simp add: shown_twoPages s2 next_examples)
  then have "whileLoop twoPages s1 = s2"
    using next1 assms(3) by (simp add: whileLoop_turn s1 s2_def [symmetric] whileLoop_stop)
  then show "allReviews (processAllPages twoPages s) =
           allReviews s @ [assemble s frenchRated 1,
             assemble (s\<lparr>allReviews := allReviews s @ [assemble s frenchRated 1],
                         currentPage := currentPage s + 1\<rparr>) wordRated 0]"
    and "currentPage (processAllPages twoPages s) = currentPage s + 1"
    and "clicks (processAllPages twoPages s) = 1"
    using assms(1) by (simp_all add: run_fields s1_def [symmetric] s2)
qed

section \<open>The entry guard\<close>

text \<open>
  C6.  A call made while a run is in progress only logs the rejection: the records, the
  page counter, the running flag and the position on the surface are as they were.
\<close>

theorem C6_rejected_while_running:
  "isProcessing s \<Longrightarrow>
     processAllPages env s = log LogAlreadyRunning s \<and>
     allReviews (processAllPages env s) = allReviews s \<and>
     currentPage (processAllPages env s) = currentPage s \<and>
     isProcessing (processAllPages env s) = isProcessing s \<and>
     clicks (processAllPages env s) = clicks s \<and>
     elapsed (processAllPages env s) = elapsed s"
  by (simp add: processAllPages_def processAllPages_with_def log_def)

theorem C6_rejected_while_running_witness:
  "processAllPages noPages midRun = midRun\<lparr>console := [LogAlreadyRunning]\<rparr>"
  using C6_rejected_while_running [of midRun noPages]
  by (simp add: midRun_def log_def)

section \<open>The discard rule\<close>

text \<open>
  C8.  Every record a page yields, and every record in the collection after a run that
  started from the state of the freshly loaded script, has a non-empty title or a
  non-empty text, both as \<open>cleanText\<close> left them.  The records of a page are those of the
  containers with such a title or text, in order; a container whose title and text are
  both empty adds none.
\<close>

theorem C8_only_records_with_content:
  "(\<forall>x \<in> set (fst (extractReviewsFromCurrentPage doc s)). titre x \<noteq> [] \<or> texte x \<noteq> []) \<and>
   (\<forall>x \<in> set (allReviews (processAllPages env initial)). titre x \<noteq> [] \<or> texte x \<noteq> []) \<and>
   fst (extractReviewsFromCurrentPage doc s) =
     map (\<lambda>(j, r). assemble s r j)
       (filter (\<lambda>(j, r). titre (assemble s r j) \<noteq> [] \<or> texte (assemble s r j) \<noteq> [])
          (enumerate 0 (findReviewElements doc reviewSelectors))) \<and>
   (titre (assemble s r index) = [] \<and> texte (assemble s r index) = [] \<longrightarrow>
      forEachReview s (r # rs) index = forEachReview s rs (Suc index))"
proof -
  have "\<forall>x \<in> set (fst (extractReviewsFromCurrentPage doc s)). titre x \<noteq> [] \<or> texte x \<noteq> []"
    using forEachReview_kept by (auto simp: fst_extract kept_def)
  moreover have "\<forall>x \<in> set (allReviews (processAllPages env initial)). titre x \<noteq> [] \<or> texte x \<noteq> []"
    using run_kept [of initial env] by (simp add: initial_def kept_def)
  moreover have "fst (extractReviewsFromCurrentPage doc s) =
     map (\<lambda>(j, r). assemble s r j)
       (filter (\<lambda>(j, r). titre (assemble s r j) \<noteq> [] \<or> texte (assemble s r j) \<noteq> [])
          (enumerate 0 (findReviewElements doc reviewSelectors)))"
  proof -
    have "(\<lambda>(j, r). yieldsRecord r) =
          (\<lambda>(j, r). titre (assemble s r j) \<noteq> [] \<or> texte (assemble s r j) \<noteq> [])"
      using kept_assemble [of s] by (auto simp: fun_eq_iff kept_def)
    then show ?thesis
      by (simp add: fst_extract forEachReview_enumerate)
  qed
  moreover have "titre (assemble s r index) = [] \<and> texte (assemble s r index) = [] \<longrightarrow>
      forEachReview s (r # rs) index = forEachReview s rs (Suc index)"
    by (simp add: kept_def)
  ultimately show ?thesis by blast
qed

theorem C8_only_records_with_content_witness:
  "fst (extractReviewsFromCurrentPage firstPage initial) = [assemble initial frenchRated 1] \<and>
   forEachReview initial [blank] 0 = []"
  using C8_only_records_with_content [of firstPage initial noPages blank 0 "[]"]
  by (simp add: elements_firstPage blank_fields titre_frenchRated str_def)

section \<open>The statistics\<close>

lemma shown_noPages: "shown noPages s = emptyPage"
  by (simp add: shown_def noPages_def)

lemma console_run:
  "\<not> isProcessing s \<Longrightarrow>
     console (processAllPages env s) =
       console (whileLoop env (firstPageDone env s)) @
        [LogFinished,
         LogTotals (length (allReviews (processAllPages env s))) (currentPage (processAllPages env s)),
         LogCopyJson,
         LogRule,
         LogJson (allReviews (processAllPages env s)),
         LogRule,
         LogStatistics,
         LogCount (length (allReviews (processAllPages env s))),
         LogDistribution (noteStats (allReviews (processAllPages env s))),
         LogVerified (verifiedText (allReviews (processAllPages env s)))]"
  by (simp add: processAllPages_run report_def)

lemma initial_fields:
  "allReviews initial = []" "currentPage initial = 1" "\<not> isProcessing initial"
  "clicks initial = 0" "elapsed initial = 0" "console initial = []"
  by (simp_all add: initial_def)

lemma showNat_0: "showNat 0 = str ''0''"
  by (simp add: showNat.simps str_def)

text \<open>
  C7, as the code has it.  The last line a run prints is the one of line 211: the count of
  records flagged as verified purchases, a slash, and the count of all records, as text.
  No quotient is computed, so nothing can fail for an empty collection, whose line is
  \<open>0/0\<close>.
\<close>

theorem C7_verified_line:
  "\<not> isProcessing s \<Longrightarrow>
     console (processAllPages env s) \<noteq> [] \<and>
     last (console (processAllPages env s)) =
       LogVerified
         (showNat (length (filter achat_verifie (allReviews (processAllPages env s))))
          @ str ''/'' @ showNat (length (allReviews (processAllPages env s)))) \<and>
     (allReviews (processAllPages env s) = [] \<longrightarrow>
        last (console (processAllPages env s)) = LogVerified (str ''0/0''))"
  by (simp add: console_run verifiedText_def showNat_0) (simp add: str_def)

lemma noPages_run: "allReviews (processAllPages noPages initial) = []"
proof -
  have "\<not> hasNextPage (shown noPages (firstPageDone noPages initial))"
    by (simp add: shown_noPages next_examples)
  then have "whileLoop noPages (firstPageDone noPages initial) = firstPageDone noPages initial"
    by (simp add: whileLoop_stop)
  then show ?thesis
    by (simp add: run_fields initial_fields firstPageDone_fields shown_noPages emptyPage_def
        reviewSelectors_def)
qed

theorem C7_verified_line_witness:
  "last (console (processAllPages twoPages initial)) = LogVerified (str ''0/2'')"
proof -
  have "\<exists>a b. allReviews (processAllPages twoPages initial) =
          [assemble a frenchRated 1, assemble b wordRated 0]"
    using twoPages_run(1) [of initial] by (auto simp add: initial_fields MAX_PAGES_def)
  moreover have "\<not> achat_verifie (assemble a frenchRated i)" "\<not> achat_verifie (assemble a wordRated i)"
    for a i
    by (simp_all add: assemble_def frenchRated_def wordRated_def)
  ultimately show ?thesis
    using C7_verified_line [of initial twoPages]
    by (auto simp add: initial_fields showNat.simps str_def)
qed

text \<open>
  C7 as stated fails for an empty collection: the run over a page without reviews ends
  with the line \<open>0/0\<close>, and prints no line whose value is \<open>0\<close>.
\<close>

theorem C7_empty_counterexample:
  "last (console (processAllPages noPages initial)) = LogVerified (str ''0/0'') \<and>
   LogVerified (str ''0'') \<notin> set (console (processAllPages noPages initial))"
proof -
  have stop: "whileLoop noPages (firstPageDone noPages initial) = firstPageDone noPages initial"
    by (simp add: whileLoop_stop shown_noPages next_examples)
  have "console (firstPageDone noPages initial) =
          [LogStart, LogMayTakeMinutes, LogKeepPageOpen, LogDetected 1 0]"
    by (simp add: firstPageDone_def extractReviewsFromCurrentPage_def Let_def log_def
        initial_def shown_noPages emptyPage_def reviewSelectors_def)
  then show ?thesis
    by (simp add: console_run initial_fields stop noPages_run verifiedText_def showNat_0)
       (simp add: str_def)
qed

section \<open>Runs that follow one another\<close>

lemma single_page_run:
  assumes "\<not> isProcessing s" and "\<not> hasNextPage (shown env s)"
  shows "allReviews (processAllPages env s) =
           allReviews s @ forEachReview s (findReviewElements (shown env s) reviewSelectors) 0"
    and "currentPage (processAllPages env s) = currentPage s"
proof -
  have "shown env (firstPageDone env s) = shown env s"
    by (simp add: shown_def firstPageDone_fields)
  then have "whileLoop env (firstPageDone env s) = firstPageDone env s"
    using assms(2) by (simp add: whileLoop_stop)
  then show "allReviews (processAllPages env s) =
           allReviews s @ forEachReview s (findReviewElements (shown env s) reviewSelectors) 0"
    and "currentPage (processAllPages env s) = currentPage s"
    using assms(1) by (simp_all add: run_fields firstPageDone_fields)
qed

lemma run_prefix:
  "\<not> isProcessing s \<Longrightarrow>
     \<exists>rest. allReviews (processAllPages env s) =
       allReviews s @ forEachReview s (findReviewElements (shown env s) reviewSelectors) 0 @ rest"
  using whileLoop_prefix [of env "firstPageDone env s"]
  by (auto simp: run_fields firstPageDone_fields)

lemma run_currentPage_mono: "currentPage s \<le> currentPage (processAllPages env s)"
proof (cases "isProcessing s")
  case True
  then show ?thesis
    by (simp add: processAllPages_def processAllPages_with_def)
next
  case False
  then show ?thesis
    using whileLoop_currentPage_mono [of "firstPageDone env s" env]
    by (simp add: run_fields firstPageDone_fields)
qed

text \<open>
  C2, as the code has it.  The collection is empty and the page counter is 1 when the
  script has been loaded.  A call does not reset them: it keeps the records it finds, reads
  its first page under the counter and the count it finds, appends, and never lowers the
  counter.
\<close>

theorem C2_state_carried_over:
  "allReviews initial = [] \<and> currentPage initial = 1 \<and>
   currentPage s \<le> currentPage (processAllPages env s) \<and>
   (\<not> isProcessing s \<longrightarrow>
      (\<exists>rest. allReviews (processAllPages env s) =
         allReviews s @ forEachReview s (findReviewElements (shown env s) reviewSelectors) 0 @ rest))"
  by (simp add: initial_fields run_currentPage_mono run_prefix)

lemma twoPages_then:
  "\<not> isProcessing (processAllPages twoPages initial)"
  "clicks (processAllPages twoPages initial) = 1"
  "currentPage (processAllPages twoPages initial) = 2"
  "allReviews (processAllPages twoPages initial) =
     [assemble initial frenchRated 1,
      assemble (initial\<lparr>allReviews := [assemble initial frenchRated 1], currentPage := 2\<rparr>)
        wordRated 0]"
  using twoPages_run [of initial] run_fields(4) [of initial twoPages]
  by (simp_all add: initial_fields MAX_PAGES_def numeral_2_eq_2)

theorem C2_state_carried_over_witness:
  "\<exists>rest. allReviews (processAllPages twoPages (processAllPages twoPages initial)) =
     allReviews (processAllPages twoPages initial) @
     [assemble (processAllPages twoPages initial) wordRated 0] @ rest"
  using C2_state_carried_over [of "processAllPages twoPages initial" twoPages]
  by (simp add: twoPages_then(1,2) shown_twoPages elements_lastPage kept_assemble yields_examples)

text \<open>
  C2 as stated fails: after a first run over two pages the collection holds two records
  and the counter is 2, and a second call starts from there.  Its first page is recorded
  as page 2, after the two records of the first run.
\<close>

theorem C2_second_run_counterexample:
  "allReviews (processAllPages twoPages initial) \<noteq> [] \<and>
   currentPage (processAllPages twoPages initial) = 2 \<and>
   map page (allReviews (processAllPages twoPages (processAllPages twoPages initial))) = [1, 2, 2]"
proof -
  let ?s = "processAllPages twoPages initial"
  have "\<not> hasNextPage (shown twoPages ?s)"
    by (simp add: shown_twoPages twoPages_then next_examples)
  then have "allReviews (processAllPages twoPages ?s) =
      allReviews ?s @ forEachReview ?s (findReviewElements (shown twoPages ?s) reviewSelectors) 0"
    using twoPages_then(1) by (rule single_page_run(1) [rotated])
  then show ?thesis
    by (simp add: shown_twoPages elements_lastPage kept_assemble yields_examples)
       (simp add: twoPages_then page_assemble initial_fields)
qed

section \<open>The running flag\<close>

text \<open>
  C10.  A call that starts a run, that is, one that passes the entry guard, returns with
  the running flag cleared, whether its body ended normally or threw: the \<open>finally\<close> of
  line 216 runs on both paths.  The flag is cleared for the body of the script and for any
  body put in its place, one that throws included.  The call that follows is therefore
  not the rejected one.
\<close>

theorem C10_flag_cleared:
  "\<not> isProcessing s \<Longrightarrow>
     \<not> isProcessing (processAllPages env s) \<and>
     \<not> isProcessing (processAllPages_with body env s) \<and>
     processAllPages env (processAllPages env s) \<noteq> log LogAlreadyRunning (processAllPages env s)"
proof -
  assume s: "\<not> isProcessing s"
  let ?u = "processAllPages env s"
  have u: "\<not> isProcessing ?u"
    using s by (rule run_fields(4))
  have "last (console (processAllPages env ?u)) \<noteq> LogAlreadyRunning"
    using u by (simp add: console_run)
  moreover have "last (console (log LogAlreadyRunning ?u)) = LogAlreadyRunning"
    by (simp add: log_def)
  ultimately have "processAllPages env ?u \<noteq> log LogAlreadyRunning ?u"
    by metis
  moreover have "\<not> isProcessing (processAllPages_with body env s)"
    using s by (simp add: processAllPages_with_def Let_def split: prod.splits)
  ultimately show ?thesis
    using u by simp
qed

theorem C10_flag_cleared_witness:
  "\<not> isProcessing (processAllPages twoPages initial) \<and>
   \<not> isProcessing (processAllPages_with (\<lambda>env s. (Threw, s)) twoPages initial)"
  using C10_flag_cleared [of initial twoPages "\<lambda>env s. (Threw, s)"]
  by (simp add: initial_fields)

section \<open>Waiting for the page\<close>

lemma checkLoaded_polls:
  \<open>attempts < maxAttempts \<Longrightarrow>
     \<exists>n. attempts + n < maxAttempts \<and>
         elapsed (checkLoaded env attempts s) = elapsed s + 1000 * n \<and>
         (\<forall>j < n. querySelectorAll (env (clicks s) (elapsed s + 1000 * j)) ''[data-hook="review"]'' = []) \<and>
         (attempts + n + 1 < maxAttempts \<longrightarrow>
            querySelectorAll (env (clicks s) (elapsed s + 1000 * n)) ''[data-hook="review"]'' \<noteq> [])\<close>
proof (induction env attempts s rule: checkLoaded.induct)
  case (1 env attempts s)
  let ?here = \<open>querySelectorAll (shown env s) ''[data-hook="review"]''\<close>
  show ?case
  proof (cases "length ?here > 0 \<or> attempts + 1 \<ge> maxAttempts")
    case True
    then have "elapsed (checkLoaded env attempts s) = elapsed s"
      by (subst checkLoaded.simps) (simp add: log_def)
    with True "1.prems" show ?thesis
      by (intro exI [of _ 0]) (auto simp: shown_def)
  next
    case False
    then have step: "checkLoaded env attempts s = checkLoaded env (attempts + 1) (setTimeout 1000 s)"
      by (subst checkLoaded.simps) simp
    from False have "attempts + 1 < maxAttempts" by simp
    with "1.IH" False obtain m where m:
      "attempts + 1 + m < maxAttempts"
      "elapsed (checkLoaded env (attempts + 1) (setTimeout 1000 s)) = elapsed (setTimeout 1000 s) + 1000 * m"
      \<open>\<forall>j < m. querySelectorAll (env (clicks (setTimeout 1000 s))
          (elapsed (setTimeout 1000 s) + 1000 * j)) ''[data-hook="review"]'' = []\<close>
      \<open>attempts + 1 + m + 1 < maxAttempts \<longrightarrow>
         querySelectorAll (env (clicks (setTimeout 1000 s))
          (elapsed (setTimeout 1000 s) + 1000 * m)) ''[data-hook="review"]'' \<noteq> []\<close>
      by blast
    have empty_here: \<open>querySelectorAll (env (clicks s) (elapsed s)) ''[data-hook="review"]'' = []\<close>
      using False by (simp add: shown_def)
    have \<open>querySelectorAll (env (clicks s) (elapsed s + 1000 * j)) ''[data-hook="review"]'' = []\<close>
      if "j < Suc m" for j
    proof (cases j)
      case 0
      then show ?thesis using empty_here by simp
    next
      case (Suc i)
      with that have "i < m" by simp
      with m(3) Suc show ?thesis
        by (simp add: setTimeout_def algebra_simps)
    qed
    with m show ?thesis
      by (intro exI [of _ "Suc m"]) (simp add: step setTimeout_def algebra_simps)
  qed
qed

lemma waitForPageLoad_polls:
  \<open>\<exists>n. 1 \<le> n \<and> n \<le> maxAttempts \<and>
       elapsed (waitForPageLoad env s) = elapsed s + 1000 * n \<and>
       (\<forall>j. 1 \<le> j \<and> j < n \<longrightarrow>
          querySelectorAll (env (clicks s) (elapsed s + 1000 * j)) ''[data-hook="review"]'' = []) \<and>
       (n < maxAttempts \<longrightarrow>
          querySelectorAll (env (clicks s) (elapsed s + 1000 * n)) ''[data-hook="review"]'' \<noteq> [])\<close>
proof -
  obtain m where m:
    "m < maxAttempts"
    "elapsed (checkLoaded env 0 (setTimeout 1000 s)) = elapsed (setTimeout 1000 s) + 1000 * m"
    \<open>\<forall>j < m. querySelectorAll (env (clicks (setTimeout 1000 s))
        (elapsed (setTimeout 1000 s) + 1000 * j)) ''[data-hook="review"]'' = []\<close>
    \<open>m + 1 < maxAttempts \<longrightarrow>
       querySelectorAll (env (clicks (setTimeout 1000 s))
        (elapsed (setTimeout 1000 s) + 1000 * m)) ''[data-hook="review"]'' \<noteq> []\<close>
    using checkLoaded_polls [of 0 env "setTimeout 1000 s"] by (auto simp: maxAttempts_def)
  have \<open>querySelectorAll (env (clicks s) (elapsed s + 1000 * j)) ''[data-hook="review"]'' = []\<close>
    if "1 \<le> j" "j < Suc m" for j
  proof -
    from that obtain i where "j = Suc i" "i < m"
      by (cases j) auto
    with m(3) show ?thesis
      by (simp add: setTimeout_def algebra_simps)
  qed
  with m show ?thesis
    by (intro exI [of _ "Suc m"]) (simp add: waitForPageLoad_def setTimeout_def algebra_simps)
qed

text \<open>
  C9.  The wait ends: after \<open>n\<close> polls, one every 1000 ms, where \<open>n\<close> is between 1 and 30,
  no poll before the \<open>n\<close>-th saw a review container, and the \<open>n\<close>-th saw one unless it is
  the 30th.  It changes nothing but the clock and the console.  However it ends, the turn
  of the loop goes on to read the page then shown and appends what it yields; it does
  not break.
\<close>

theorem C9_wait_ends_and_page_is_read:
  \<open>(\<exists>n. 1 \<le> n \<and> n \<le> 30 \<and>
       elapsed (waitForPageLoad env s) = elapsed s + 1000 * n \<and>
       (\<forall>j. 1 \<le> j \<and> j < n \<longrightarrow>
          querySelectorAll (env (clicks s) (elapsed s + 1000 * j)) ''[data-hook="review"]'' = []) \<and>
       (n < 30 \<longrightarrow>
          querySelectorAll (env (clicks s) (elapsed s + 1000 * n)) ''[data-hook="review"]'' \<noteq> [])) \<and>
   (\<exists>e c. waitForPageLoad env s = s\<lparr>elapsed := e, console := c\<rparr>) \<and>
   (hasNextPage (shown env s) \<longrightarrow>
      fst (loopBody env s) \<and>
      allReviews (snd (loopBody env s)) =
        allReviews s @
        fst (extractReviewsFromCurrentPage
              (shown env (waitForPageLoad env
                 (snd (goToNextPage env (s\<lparr>currentPage := currentPage s + 1\<rparr>)))))
              (waitForPageLoad env
                 (snd (goToNextPage env (s\<lparr>currentPage := currentPage s + 1\<rparr>))))))\<close>
  using waitForPageLoad_polls [of env s] waitForPageLoad_frame [of env s]
    loopBody_next(1,2) [of env s]
  by (simp add: maxAttempts_def arrived_def)

theorem C9_wait_ends_and_page_is_read_witness:
  "elapsed (waitForPageLoad noPages initial) = 30000 \<and>
   fst (loopBody twoPages initial)"
  using C9_wait_ends_and_page_is_read [of noPages initial]
    C9_wait_ends_and_page_is_read [of twoPages initial]
  by (auto simp add: noPages_def emptyPage_def initial_fields shown_twoPages next_examples)

section \<open>Pages read\<close>

lemma checkLoaded_console:
  "\<exists>p n. console (checkLoaded env attempts s) = console s @ [LogLoaded p n]"
proof (induction env attempts s rule: checkLoaded.induct)
  case (1 env attempts s)
  show ?case
  proof (cases "length (querySelectorAll (shown env s) ''[data-hook=\"review\"]'') > 0
         \<or> attempts + 1 \<ge> maxAttempts")
    case True
    then show ?thesis
      by (subst checkLoaded.simps) (simp add: log_def)
  next
    case False
    then have "checkLoaded env attempts s = checkLoaded env (attempts + 1) (setTimeout 1000 s)"
      by (subst checkLoaded.simps) simp
    with 1 False show ?thesis
      by (simp add: setTimeout_def)
  qed
qed

lemma arrived_console:
  assumes "hasNextPage (shown env s)"
  shows "\<exists>a p n. console (arrived env s) = console s @ [LogNextPage a, LogLoaded p n]"
proof -
  let ?g = "click (log (LogNextPage (currentPage s + 2)) (s\<lparr>currentPage := currentPage s + 1\<rparr>))"
  have "arrived env s = checkLoaded env 0 (setTimeout 1000 ?g)"
    using assms by (simp add: arrived_def waitForPageLoad_def goToNextPage_next shown_def)
  moreover obtain p n where
    "console (checkLoaded env 0 (setTimeout 1000 ?g)) = console (setTimeout 1000 ?g) @ [LogLoaded p n]"
    using checkLoaded_console by blast
  ultimately show ?thesis
    by (simp add: setTimeout_def click_def log_def)
qed

lemma loopBody_unfold:
  assumes "hasNextPage (shown env s)"
  shows "loopBody env s =
      (let s3 = arrived env s;
           (pageReviews, s4) = extractReviewsFromCurrentPage (shown env s3) s3;
           s5 = s4\<lparr>allReviews := allReviews s4 @ pageReviews\<rparr>;
           s6 = log (LogRunningTotal (length (allReviews s5))) s5
       in if hasNextPage (shown env s6) \<and> currentPage s6 < MAX_PAGES
          then (True, setTimeout DELAY_BETWEEN_PAGES
                        (log (LogPause (DELAY_BETWEEN_PAGES div 1000)) s6))
          else (True, s6))"
  using assms
  by (simp add: loopBody_def arrived_def Let_def goToNextPage_next shown_def split: prod.splits)

lemma loopBody_console:
  assumes "hasNextPage (shown env s)"
  shows "pagesRead (console (snd (loopBody env s))) = pagesRead (console s) + 1"
    and "LogError \<in> set (console (snd (loopBody env s))) \<longleftrightarrow> LogError \<in> set (console s)"
proof -
  obtain a p n where c: "console (arrived env s) = console s @ [LogNextPage a, LogLoaded p n]"
    using arrived_console [OF assms] by blast
  show "pagesRead (console (snd (loopBody env s))) = pagesRead (console s) + 1"
    by (simp add: loopBody_unfold [OF assms] Let_def extractReviewsFromCurrentPage_def
        log_def setTimeout_def c pagesRead_def)
  show "LogError \<in> set (console (snd (loopBody env s))) \<longleftrightarrow> LogError \<in> set (console s)"
    by (simp add: loopBody_unfold [OF assms] Let_def extractReviewsFromCurrentPage_def
        log_def setTimeout_def c)
qed

lemma firstPageDone_console:
  "\<exists>n. console (firstPageDone env s) =
     console s @ [LogStart, LogMayTakeMinutes, LogKeepPageOpen, LogDetected (currentPage s) n]"
  by (simp add: firstPageDone_def extractReviewsFromCurrentPage_def Let_def log_def)

lemma whileLoop_exit:
  "\<not> (hasNextPage (shown env (whileLoop env s)) \<and> currentPage (whileLoop env s) < MAX_PAGES)"
proof (induction env s rule: whileLoop.induct)
  case (1 env s)
  show ?case
  proof (cases "hasNextPage (shown env s) \<and> currentPage s < MAX_PAGES")
    case True
    with 1 show ?thesis
      by (simp add: whileLoop_turn loopBody_next(1))
  next
    case False
    then show ?thesis
      by (simp add: whileLoop_stop)
  qed
qed

text \<open>A run from the freshly loaded script stays in step.\<close>

lemma whileLoop_inStep: "inStep (whileLoop env (firstPageDone env initial))"
proof (rule whileLoop_invariant [of inStep "firstPageDone env initial" env])
  obtain n where "console (firstPageDone env initial) =
     console initial @ [LogStart, LogMayTakeMinutes, LogKeepPageOpen, LogDetected (currentPage initial) n]"
    using firstPageDone_console by blast
  then show "inStep (firstPageDone env initial)"
    by (simp add: inStep_def firstPageDone_fields initial_fields MAX_PAGES_def pagesRead_def)
next
  fix u
  assume "inStep u" and n: "hasNextPage (shown env u)" and "currentPage u < MAX_PAGES"
  then show "inStep (snd (loopBody env u))"
    by (simp add: inStep_def loopBody_console [OF n] turn_fields(5,6) [OF n])
qed

lemma run_inStep:
  "currentPage (processAllPages env initial) \<le> MAX_PAGES"
  "clicks (processAllPages env initial) + 1 = currentPage (processAllPages env initial)"
  "pagesRead (console (processAllPages env initial)) = currentPage (processAllPages env initial)"
  "LogError \<notin> set (console (processAllPages env initial))"
  "LogFinished \<in> set (console (processAllPages env initial))"
  using whileLoop_inStep [of env]
  by (simp_all add: inStep_def run_fields console_run initial_fields pagesRead_def)

section \<open>The safety ceiling\<close>

text \<open>
  C5.  When every document the surface shows has a next page, the run from the freshly
  loaded script ends normally with the page counter at the ceiling, which is 20: it has
  read 20 pages and clicked 19 times, it prints its final report and no error, and the
  running flag is cleared.
\<close>

theorem C5_stops_at_ceiling:
  "\<forall>k t. hasNextPage (env k t) \<Longrightarrow>
     MAX_PAGES = 20 \<and>
     currentPage (processAllPages env initial) = 20 \<and>
     pagesRead (console (processAllPages env initial)) = 20 \<and>
     clicks (processAllPages env initial) = 19 \<and>
     LogFinished \<in> set (console (processAllPages env initial)) \<and>
     LogError \<notin> set (console (processAllPages env initial)) \<and>
     \<not> isProcessing (processAllPages env initial)"
proof -
  assume always: "\<forall>k t. hasNextPage (env k t)"
  let ?u = "whileLoop env (firstPageDone env initial)"
  have "hasNextPage (shown env ?u)"
    using always by (simp add: shown_def)
  then have "\<not> currentPage ?u < MAX_PAGES"
    using whileLoop_exit [of env "firstPageDone env initial"] by simp
  then have "currentPage (processAllPages env initial) = MAX_PAGES"
    using run_inStep(1) [of env] by (simp add: run_fields initial_fields)
  then show ?thesis
    using run_inStep(2-5) [of env] run_fields(4) [of initial env]
    by (simp add: MAX_PAGES_def initial_fields)
qed

theorem C5_stops_at_ceiling_witness:
  "currentPage (processAllPages (\<lambda>k t. firstPage) initial) = 20 \<and>
   clicks (processAllPages (\<lambda>k t. firstPage) initial) = 19"
  using C5_stops_at_ceiling [of "\<lambda>k t. firstPage"]
  by (simp add: next_examples)

section \<open>Four pages\<close>

lemma elements_pageOf: "findReviewElements (pageOf rs further) reviewSelectors = rs"
  by (cases rs) (simp_all add: pageOf_def reviewSelectors_def)

lemma next_pageOf: "hasNextPage (pageOf rs further) = further"
  by (simp add: hasNextPage_def pageOf_def paginationSelectors_def)

lemma turn_counted:
  assumes "\<forall>t. hasNextPage (env (clicks u) t)"
    and "currentPage u < MAX_PAGES"
    and "\<forall>t. length (filter yieldsRecord (findReviewElements (env (clicks u + 1) t) reviewSelectors)) = n"
  shows "whileLoop env u = whileLoop env (snd (loopBody env u))"
    and "map page (allReviews (snd (loopBody env u))) =
           map page (allReviews u) @ replicate n (currentPage u + 1)"
    and "currentPage (snd (loopBody env u)) = currentPage u + 1"
    and "clicks (snd (loopBody env u)) = clicks u + 1"
proof -
  have nx: "hasNextPage (shown env u)"
    using assms(1) by (simp add: shown_def)
  note t = turn_fields [OF nx]
  show "whileLoop env u = whileLoop env (snd (loopBody env u))"
    using nx assms(2) by (rule whileLoop_turn)
  show "map page (allReviews (snd (loopBody env u))) =
           map page (allReviews u) @ replicate n (currentPage u + 1)"
    using assms(3) by (simp add: t(1) page_forEachReview t(3) shown_def t(4))
  show "currentPage (snd (loopBody env u)) = currentPage u + 1"
    and "clicks (snd (loopBody env u)) = clicks u + 1"
    by (simp_all add: t)
qed

text \<open>
  C4.  The surface shows, after 0, 1, 2 and 3 clicks, pages whose containers with a title
  or a text number 3, 5, 0 and 2; the first three have a next page and the fourth has
  none.  The run from the freshly loaded script then collects 10 records, whose \<open>page\<close>
  fields are 1, 1, 1, 2, 2, 2, 2, 2, 4, 4 in this order, and reads 4 pages: the counter ends
  at 4 after 3 clicks.
\<close>

theorem C4_four_pages:
  assumes "\<forall>t. length (filter yieldsRecord (findReviewElements (env 0 t) reviewSelectors)) = 3"
    and "\<forall>t. length (filter yieldsRecord (findReviewElements (env 1 t) reviewSelectors)) = 5"
    and "\<forall>t. length (filter yieldsRecord (findReviewElements (env 2 t) reviewSelectors)) = 0"
    and "\<forall>t. length (filter yieldsRecord (findReviewElements (env 3 t) reviewSelectors)) = 2"
    and "\<forall>t. hasNextPage (env 0 t)"
    and "\<forall>t. hasNextPage (env 1 t)"
    and "\<forall>t. hasNextPage (env 2 t)"
    and "\<forall>t. \<not> hasNextPage (env 3 t)"
  shows "map page (allReviews (processAllPages env initial)) = [1, 1, 1, 2, 2, 2, 2, 2, 4, 4] \<and>
         length (allReviews (processAllPages env initial)) = 10 \<and>
         currentPage (processAllPages env initial) = 4 \<and>
         pagesRead (console (processAllPages env initial)) = 4 \<and>
         clicks (processAllPages env initial) = 3"
proof -
  define s1 where "s1 = firstPageDone env initial"
  define s2 where "s2 = snd (loopBody env s1)"
  define s3 where "s3 = snd (loopBody env s2)"
  define s4 where "s4 = snd (loopBody env s3)"
  have s1: "map page (allReviews s1) = [1, 1, 1]" "currentPage s1 = 1" "clicks s1 = 0"
    using assms(1)
    by (simp_all add: s1_def firstPageDone_fields initial_fields page_forEachReview shown_def
        numeral_3_eq_3)
  have t1: "whileLoop env s1 = whileLoop env s2"
    "map page (allReviews s2) = [1, 1, 1, 2, 2, 2, 2, 2]" "currentPage s2 = 2" "clicks s2 = 1"
    using turn_counted [of env s1 5] assms(2,5)
    by (simp_all add: s1 s2_def MAX_PAGES_def numeral_eq_Suc)
  have t2: "whileLoop env s2 = whileLoop env s3"
    "map page (allReviews s3) = [1, 1, 1, 2, 2, 2, 2, 2]" "currentPage s3 = 3" "clicks s3 = 2"
    using turn_counted [of env s2 0] assms(3,6)
    by (simp_all add: t1 s3_def MAX_PAGES_def numeral_eq_Suc)
  have t3: "whileLoop env s3 = whileLoop env s4"
    "map page (allReviews s4) = [1, 1, 1, 2, 2, 2, 2, 2, 4, 4]" "currentPage s4 = 4" "clicks s4 = 3"
    using turn_counted [of env s3 2] assms(4,7)
    by (simp_all add: t2 s4_def MAX_PAGES_def numeral_eq_Suc)
  have "\<not> hasNextPage (shown env s4)"
    using assms(8) by (simp add: shown_def t3)
  then have "whileLoop env s4 = s4"
    by (simp add: whileLoop_stop)
  then have stop: "whileLoop env (firstPageDone env initial) = s4"
    using t1(1) t2(1) t3(1) by (simp add: s1_def)
  have pages: "map page (allReviews (processAllPages env initial)) = [1, 1, 1, 2, 2, 2, 2, 2, 4, 4]"
    and cp: "currentPage (processAllPages env initial) = 4"
    and cl: "clicks (processAllPages env initial) = 3"
    by (simp_all add: run_fields initial_fields stop t3)
  have len: "length (allReviews (processAllPages env initial)) = 10"
    using arg_cong [OF pages, of length] by simp
  show ?thesis
    using pages cp cl len run_inStep(3) [of env] by simp
qed

theorem C4_four_pages_witness:
  "map page (allReviews (processAllPages fourPages initial)) = [1, 1, 1, 2, 2, 2, 2, 2, 4, 4] \<and>
   currentPage (processAllPages fourPages initial) = 4"
  using C4_four_pages [of fourPages]
  by (simp add: fourPages_def elements_pageOf next_pageOf yields_examples)

section \<open>Record ids\<close>

lemma ids_sequential_step:
  assumes "map id_review xs = [1..<Suc (length xs)]"
    and "length (allReviews a) = length xs"
    and "\<forall>r \<in> set els. yieldsRecord r"
  shows "map id_review (xs @ forEachReview a els 0) =
           [1..<Suc (length (xs @ forEachReview a els 0))]"
proof -
  have "length (forEachReview a els 0) = length els"
    using assms(3) by (simp add: length_forEachReview)
  moreover have "map id_review (forEachReview a els 0) = [Suc (length xs) ..< Suc (length xs) + length els]"
    using ids_forEachReview_all_kept [OF assms(3), of a 0] assms(2) by simp
  moreover have "[1..<Suc (length xs) + length els] =
      [1..<Suc (length xs)] @ [Suc (length xs) ..< Suc (length xs) + length els]"
    by (rule upt_add_eq_append) simp
  ultimately show ?thesis
    using assms(1) by simp
qed

lemma run_ids_sequential:
  assumes "\<forall>k t. \<forall>r \<in> set (findReviewElements (env k t) reviewSelectors). yieldsRecord r"
  shows "map id_review (allReviews (processAllPages env initial)) =
           [1..<Suc (length (allReviews (processAllPages env initial)))]"
proof -
  let ?P = "\<lambda>u. map id_review (allReviews u) = [1..<Suc (length (allReviews u))]"
  have all: "\<forall>r \<in> set (findReviewElements (shown env u) reviewSelectors). yieldsRecord r" for u
    using assms by (simp add: shown_def)
  have "?P (whileLoop env (firstPageDone env initial))"
  proof (rule whileLoop_invariant [of ?P "firstPageDone env initial" env])
    show "?P (firstPageDone env initial)"
      using ids_sequential_step [of "[]" initial, OF _ _ all [of initial]]
      by (simp add: firstPageDone_fields initial_fields)
  next
    fix u
    assume u: "?P u" and n: "hasNextPage (shown env u)"
    show "?P (snd (loopBody env u))"
      using ids_sequential_step [OF u turn_fields(2) [OF n] all [of "arrived env u"]]
      by (simp add: turn_fields(1) [OF n])
  qed
  then show ?thesis
    by (simp add: run_fields initial_fields)
qed

lemma keptPages_length: "length (allReviews (processAllPages keptPages initial)) = 4"
proof -
  define s1 where "s1 = firstPageDone keptPages initial"
  define s2 where "s2 = snd (loopBody keptPages s1)"
  have s1: "map page (allReviews s1) = [1, 1]" "currentPage s1 = 1" "clicks s1 = 0"
    by (simp_all add: s1_def firstPageDone_fields initial_fields shown_def
        keptPages_def elements_pageOf kept_assemble page_assemble yields_examples)
  have t1: "whileLoop keptPages s1 = whileLoop keptPages s2"
    "map page (allReviews s2) = [1, 1, 2, 2]" "clicks s2 = 1"
    using turn_counted [of keptPages s1 2]
    by (simp_all add: s1 s2_def MAX_PAGES_def keptPages_def elements_pageOf next_pageOf
        yields_examples numeral_2_eq_2)
  have "\<not> hasNextPage (shown keptPages s2)"
    by (simp add: shown_def t1 keptPages_def next_pageOf)
  then have "whileLoop keptPages (firstPageDone keptPages initial) = s2"
    using t1(1) by (simp add: whileLoop_stop s1_def)
  then have "map page (allReviews (processAllPages keptPages initial)) = [1, 1, 2, 2]"
    by (simp add: run_fields initial_fields t1)
  then show ?thesis
    using arg_cong [of _ _ length] by fastforce
qed

text \<open>
  C3, as the code has it.  The records of a page are those of its containers that have a
  title or a text, in order, and the record of the container at position \<open>j\<close> has the id
  \<open>length allReviews + j + 1\<close>, the length being that of the collection when the page is
  read.  Within a page the ids increase strictly, so they differ.  In a run from the
  freshly loaded script over pages on which every container has a title or a text, the
  ids are \<open>1, 2, ...\<close> in order, so they all differ.
\<close>

theorem C3_ids_from_position:
  "fst (extractReviewsFromCurrentPage doc s) =
     map (\<lambda>(j, r). assemble s r j)
       (filter (\<lambda>(j, r). yieldsRecord r) (enumerate 0 (findReviewElements doc reviewSelectors))) \<and>
   id_review (assemble s r j) = length (allReviews s) + j + 1 \<and>
   sorted_wrt (<) (map id_review (fst (extractReviewsFromCurrentPage doc s))) \<and>
   distinct (map id_review (fst (extractReviewsFromCurrentPage doc s))) \<and>
   ((\<forall>k t. \<forall>r \<in> set (findReviewElements (env k t) reviewSelectors). yieldsRecord r) \<longrightarrow>
      map id_review (allReviews (processAllPages env initial)) =
        [1..<Suc (length (allReviews (processAllPages env initial)))] \<and>
      distinct (map id_review (allReviews (processAllPages env initial))))"
proof -
  have inc: "sorted_wrt (<) (map id_review (fst (extractReviewsFromCurrentPage doc s)))"
    by (simp add: fst_extract ids_forEachReview_increasing)
  then have "distinct (map id_review (fst (extractReviewsFromCurrentPage doc s)))"
    by (simp add: strict_sorted_iff)
  moreover have "distinct (map id_review (allReviews (processAllPages env initial)))"
    if "map id_review (allReviews (processAllPages env initial)) =
        [1..<Suc (length (allReviews (processAllPages env initial)))]"
    using that distinct_upt [of 1 "Suc (length (allReviews (processAllPages env initial)))"]
    by simp
  ultimately show ?thesis
    using inc run_ids_sequential [of env]
    by (simp add: fst_extract forEachReview_enumerate id_assemble)
qed

theorem C3_ids_from_position_witness:
  "map id_review (fst (extractReviewsFromCurrentPage
       (pageOf [frenchRated, blank, wordRated, frenchRated] True) midRun)) = [2, 4, 5] \<and>
   map id_review (allReviews (processAllPages keptPages initial)) = [1, 2, 3, 4] \<and>
   distinct (map id_review (allReviews (processAllPages keptPages initial)))"
proof -
  note c = C3_ids_from_position
    [of "pageOf [frenchRated, blank, wordRated, frenchRated] True" midRun frenchRated 0 keptPages]
  have all: "\<forall>k t. \<forall>r \<in> set (findReviewElements (keptPages k t) reviewSelectors). yieldsRecord r"
    by (simp add: keptPages_def elements_pageOf yields_examples)
  have "map id_review (fst (extractReviewsFromCurrentPage
       (pageOf [frenchRated, blank, wordRated, frenchRated] True) midRun)) = [2, 4, 5]"
    using c by (simp add: elements_pageOf yields_examples id_assemble midRun_def)
  moreover have "map id_review (allReviews (processAllPages keptPages initial)) = [1, 2, 3, 4]"
    using c all by (simp add: keptPages_length upt_rec)
  moreover have "distinct (map id_review (allReviews (processAllPages keptPages initial)))"
    using c all by blast
  ultimately show ?thesis by simp
qed

text \<open>
  C3 as stated fails on uniqueness: the first page has a container without title and text
  before its review, so that review gets id 2 while the collection grows to one record,
  and the review at position 0 of the next page gets id 2 as well.
\<close>

theorem C3_duplicate_id_counterexample:
  "map id_review (allReviews (processAllPages twoPages initial)) = [2, 2] \<and>
   \<not> distinct (map id_review (allReviews (processAllPages twoPages initial)))"
  by (simp add: twoPages_then id_assemble initial_fields)

end
